theory Spec2Isabelle
  imports Complex_Main "HOL-Library.Log_Nat"
begin

unbundle bit_operations_syntax

section \<open>Python values used by frequency_slot.py\<close>

text \<open>
  A Python \<open>str\<close> is a sequence of Unicode code points; \<open>ord\<close> reads one as a
  number. HOL's \<open>char\<close> has eight bits only, so a string is modelled as the list of its
  code points, and \<open>py_str\<close> writes an ASCII literal of the source.
\<close>

type_synonym pystr = "nat list"

definition py_str :: "string \<Rightarrow> pystr" where
  "py_str s = map of_char s"

text \<open>The exceptions that the arithmetic of the program can raise.\<close>

datatype py_error = ZeroDivisionError | OverflowError | ValueError

subsection \<open>Floats: IEEE 754 binary64, round to nearest, ties to even\<close>

text \<open>
  A Python \<open>float\<close> is a binary64 number. It is modelled by its value: a rational for a
  finite number, and the three special values. The sign of a zero is not tracked: Python
  raises on every division by zero, so the program cannot tell the two zeros apart except
  when printing one.
\<close>

datatype pyfloat = Finite rat | PosInf | NegInf | NaN

definition pow2 :: "int \<Rightarrow> rat" where
  "pow2 e = (if 0 \<le> e then 2 ^ nat e else 1 / 2 ^ nat (- e))"

text \<open>\<open>ilog2 x\<close> is the exponent \<open>e\<close> with \<open>2^e \<le> |x| < 2^(e+1)\<close>, for \<open>x \<noteq> 0\<close>.\<close>

definition ilog2 :: "rat \<Rightarrow> int" where
  "ilog2 x = (let (p, q) = quotient_of \<bar>x\<bar>; e = bitlen p - bitlen q
              in if \<bar>x\<bar> < pow2 e then e - 1 else e)"

definition round_half_even :: "rat \<Rightarrow> int" where
  "round_half_even x =
     (let f = \<lfloor>x\<rfloor>; d = x - of_int f
      in if d < 1 / 2 then f
         else if 1 / 2 < d then f + 1
         else if even f then f else f + 1)"

text \<open>
  The nearest number with a 53-bit significand and an exponent of at least \<open>-1022\<close>
  (below that the spacing stays \<open>2^-1074\<close>: the subnormal numbers). The exponent is
  not bounded from above here; the callers below compare the result with \<open>2^1024\<close>.
\<close>

definition round_double :: "rat \<Rightarrow> rat" where
  "round_double x =
     (if x = 0 then 0
      else let e = max (ilog2 x) (- 1022); q = pow2 (e - 52)
           in of_int (round_half_even (x / q)) * q)"

text \<open>Every finite double is smaller in magnitude than this bound.\<close>

definition float_max_bound :: rat where
  "float_max_bound = 2 ^ 1024"

text \<open>The result of a float operation whose exact value is \<open>x\<close>: overflow gives an infinity.\<close>

definition float_round :: "rat \<Rightarrow> pyfloat" where
  "float_round x =
     (let r = round_double x
      in if float_max_bound \<le> r then PosInf
         else if r \<le> - float_max_bound then NegInf
         else Finite r)"

text \<open>A float literal of the source, such as \<open>434.79\<close>, is the nearest double.\<close>

definition float_literal :: "rat \<Rightarrow> pyfloat" where
  "float_literal x = float_round x"

text \<open>\<open>int / int\<close> and the conversion of an \<open>int\<close> operand of a mixed operation are
  correctly rounded and raise \<open>OverflowError\<close> instead of returning an infinity.\<close>

definition int_truediv :: "int \<Rightarrow> int \<Rightarrow> py_error + pyfloat" where
  "int_truediv a b =
     (if b = 0 then Inl ZeroDivisionError
      else let r = round_double (of_int a / of_int b)
           in if float_max_bound \<le> \<bar>r\<bar> then Inl OverflowError else Inr (Finite r))"

definition float_of_int :: "int \<Rightarrow> py_error + pyfloat" where
  "float_of_int i =
     (let r = round_double (of_int i)
      in if float_max_bound \<le> \<bar>r\<bar> then Inl OverflowError else Inr (Finite r))"

fun float_neg :: "pyfloat \<Rightarrow> pyfloat" where
  "float_neg (Finite a) = Finite (- a)"
| "float_neg PosInf = NegInf"
| "float_neg NegInf = PosInf"
| "float_neg NaN = NaN"

fun float_add :: "pyfloat \<Rightarrow> pyfloat \<Rightarrow> pyfloat" where
  "float_add (Finite a) (Finite b) = float_round (a + b)"
| "float_add NaN _ = NaN"
| "float_add _ NaN = NaN"
| "float_add PosInf NegInf = NaN"
| "float_add NegInf PosInf = NaN"
| "float_add PosInf _ = PosInf"
| "float_add NegInf _ = NegInf"
| "float_add (Finite a) b = b"

definition float_sub :: "pyfloat \<Rightarrow> pyfloat \<Rightarrow> pyfloat" where
  "float_sub a b = float_add a (float_neg b)"

fun float_mul :: "pyfloat \<Rightarrow> pyfloat \<Rightarrow> pyfloat" where
  "float_mul (Finite a) (Finite b) = float_round (a * b)"
| "float_mul NaN _ = NaN"
| "float_mul _ NaN = NaN"
| "float_mul (Finite a) b = (if a = 0 then NaN else if 0 < a then b else float_neg b)"
| "float_mul a (Finite b) = (if b = 0 then NaN else if 0 < b then a else float_neg a)"
| "float_mul a b = (if a = b then PosInf else NegInf)"

text \<open>Python raises on a zero divisor, whatever the dividend.\<close>

fun float_truediv :: "pyfloat \<Rightarrow> pyfloat \<Rightarrow> py_error + pyfloat" where
  "float_truediv a (Finite b) =
     (if b = 0 then Inl ZeroDivisionError
      else case a of
             Finite x \<Rightarrow> Inr (float_round (x / b))
           | NaN \<Rightarrow> Inr NaN
           | _ \<Rightarrow> Inr (if 0 < b then a else float_neg a))"
| "float_truediv a NaN = Inr NaN"
| "float_truediv (Finite x) _ = Inr (Finite 0)"
| "float_truediv _ _ = Inr NaN"

text \<open>\<open>math.floor\<close> of a float returns an \<open>int\<close>, and raises on an infinity or a NaN.\<close>

fun math_floor :: "pyfloat \<Rightarrow> py_error + int" where
  "math_floor (Finite x) = Inr \<lfloor>x\<rfloor>"
| "math_floor NaN = Inl ValueError"
| "math_floor _ = Inl OverflowError"

section \<open>The region table\<close>

record region_params =
  freq_start :: pyfloat
  freq_end :: pyfloat
  spacing :: int
  description :: pystr

text \<open>One entry of the dictionary literal: the key and the four fields.\<close>

definition region_entry :: "string \<Rightarrow> rat \<Rightarrow> rat \<Rightarrow> int \<Rightarrow> string \<Rightarrow> pystr \<times> region_params" where
  "region_entry name s e sp d =
     (py_str name,
      \<lparr>freq_start = float_literal s, freq_end = float_literal e, spacing = sp,
       description = py_str d\<rparr>)"

text \<open>The dictionary literal, in its declaration order.\<close>

definition REGION_FREQUENCIES :: "(pystr \<times> region_params) list" where
  "REGION_FREQUENCIES =
    [region_entry ''US'' 902 928 0 ''North America - 915 MHz ISM Band'',
     region_entry ''EU_868'' 863 870 0 ''Europe - 868 MHz ISM Band'',
     region_entry ''EU_433'' 433 (43479 / 100) 0 ''Europe - 433 MHz ISM Band'',
     region_entry ''ANZ'' 915 928 0 ''Australia/New Zealand - 915 MHz ISM Band'',
     region_entry ''NZ_865'' 864 868 0 ''New Zealand - 865 MHz Band'',
     region_entry ''CN'' 470 510 0 ''China - 470-510 MHz Band'',
     region_entry ''JP'' 920 928 0 ''Japan - 920 MHz Band'',
     region_entry ''KR'' 920 923 0 ''Korea - 920 MHz Band'',
     region_entry ''TW'' 920 925 0 ''Taiwan - 920 MHz Band'',
     region_entry ''RU'' (8687 / 10) (8692 / 10) 0 ''Russia - 868 MHz Band'',
     region_entry ''IN'' 865 867 0 ''India - 865 MHz Band'',
     region_entry ''NP_865'' 865 867 0 ''Nepal - 865 MHz Band'',
     region_entry ''TH'' 920 925 0 ''Thailand - 920 MHz Band'',
     region_entry ''MY_919'' 919 924 0 ''Malaysia - 919 MHz Band'',
     region_entry ''MY_433'' 433 435 0 ''Malaysia - 433 MHz Band'',
     region_entry ''SG_923'' 920 925 0 ''Singapore - 923 MHz Band'',
     region_entry ''UA_868'' 863 870 0 ''Ukraine - 868 MHz Band'',
     region_entry ''UA_433'' 433 (43479 / 100) 0 ''Ukraine - 433 MHz Band'']"

text \<open>\<open>get_region_parameters\<close>: \<open>None\<close> (after printing the region list) for a key that
  is not in the dictionary.\<close>

definition get_region_parameters :: "pystr \<Rightarrow> region_params option" where
  "get_region_parameters region = map_of REGION_FREQUENCIES region"

section \<open>The functions of the resolution\<close>

definition get_bandwidth_khz :: "pystr \<Rightarrow> int" where
  "get_bandwidth_khz channel_name =
     (if channel_name = py_str ''ShortTurbo'' then 500
      else if channel_name \<in> set [py_str ''LongMod'', py_str ''LongSlow''] then 125
      else 250)"

text \<open>
  \<open>math.floor((freq_end - freq_start) / (spacing + (bw / 1000)))\<close>, with \<open>spacing\<close> and
  \<open>bw\<close> integers as \<open>main\<close> passes them and the operands evaluated from left to right.
\<close>

definition calculate_num_freq_slots :: "pyfloat \<Rightarrow> pyfloat \<Rightarrow> int \<Rightarrow> int \<Rightarrow> py_error + int" where
  "calculate_num_freq_slots fs fe sp bw =
     (let width = float_sub fe fs
      in case int_truediv bw 1000 of
           Inl err \<Rightarrow> Inl err
         | Inr step \<Rightarrow>
             (case float_of_int sp of
                Inl err \<Rightarrow> Inl err
              | Inr spf \<Rightarrow>
                  (case float_truediv width (float_add spf step) of
                     Inl err \<Rightarrow> Inl err
                   | Inr q \<Rightarrow> math_floor q)))"

text \<open>The loop body of \<open>hash_string\<close>: shift, two additions, the 32-bit mask.\<close>

primrec hash_loop :: "int \<Rightarrow> pystr \<Rightarrow> int" where
  "hash_loop hash_value [] = hash_value"
| "hash_loop hash_value (c # s) =
     hash_loop (((push_bit 5 hash_value + hash_value) + int c) AND 0xFFFFFFFF) s"

definition hash_string :: "pystr \<Rightarrow> int" where
  "hash_string s = hash_loop 5381 s"

text \<open>Python's \<open>%\<close> on integers raises on a zero divisor and otherwise takes the sign of
  the divisor, as \<open>mod\<close> on \<open>int\<close> does.\<close>

definition determine_frequency_slot :: "pystr \<Rightarrow> int \<Rightarrow> py_error + int" where
  "determine_frequency_slot channel_name num_freq_slots =
     (if num_freq_slots = 0 then Inl ZeroDivisionError
      else Inr (hash_string channel_name mod num_freq_slots))"

text \<open>\<open>freq_start + (bw / 2000) + (frequency_slot * (bw / 1000))\<close>: the sum associates to
  the left, and the integer slot is converted when it is multiplied.\<close>

definition calculate_frequency :: "pyfloat \<Rightarrow> int \<Rightarrow> int \<Rightarrow> py_error + pyfloat" where
  "calculate_frequency fs frequency_slot bw =
     (case int_truediv bw 2000 of
        Inl err \<Rightarrow> Inl err
      | Inr half \<Rightarrow>
          (let first = float_add fs half
           in case int_truediv bw 1000 of
                Inl err \<Rightarrow> Inl err
              | Inr step \<Rightarrow>
                  (case float_of_int frequency_slot of
                     Inl err \<Rightarrow> Inl err
                   | Inr slotf \<Rightarrow> Inr (float_add first (float_mul slotf step)))))"

section \<open>The entry point\<close>

record args =
  channel_name :: pystr
  bandwidth :: "int option"
  region :: pystr

text \<open>The values that \<open>main\<close> hands to \<open>print_results\<close>.\<close>

record results =
  res_channel_name :: pystr
  res_region :: pystr
  res_num_freq_slots :: int
  res_frequency_slot :: int
  res_freq :: pyfloat
  res_bw :: int
  res_region_params :: region_params

text \<open>What a run prints: the region list, the error for an unknown region (with the same
  list), or the results.\<close>

datatype outcome =
  RegionList "(pystr \<times> pystr) list"
| InvalidRegion pystr "(pystr \<times> pystr) list"
| Printed results

text \<open>The lines \<open>reg: description\<close> that the help and the error print, in table order.\<close>

definition region_listing :: "(pystr \<times> pystr) list" where
  "region_listing = map (\<lambda>(reg, params). (reg, description params)) REGION_FREQUENCIES"

text \<open>Lines 215 to 218 of \<open>main\<close>: the override when \<open>args.bandwidth\<close> is not
  \<open>None\<close>, the bandwidth of the channel name otherwise.\<close>

definition select_bandwidth :: "args \<Rightarrow> int" where
  "select_bandwidth a =
     (case bandwidth a of Some b \<Rightarrow> b | None \<Rightarrow> get_bandwidth_khz (channel_name a))"

definition main :: "args \<Rightarrow> py_error + outcome" where
  "main a =
     (if region a = py_str ''help'' then Inr (RegionList region_listing)
      else case get_region_parameters (region a) of
             None \<Rightarrow> Inr (InvalidRegion (region a) region_listing)
           | Some region_params \<Rightarrow>
               (let bw = select_bandwidth a
                in case calculate_num_freq_slots (freq_start region_params)
                          (freq_end region_params) (spacing region_params) bw of
                     Inl err \<Rightarrow> Inl err
                   | Inr num_freq_slots \<Rightarrow>
                       (case determine_frequency_slot (channel_name a) num_freq_slots of
                          Inl err \<Rightarrow> Inl err
                        | Inr frequency_slot \<Rightarrow>
                            (case calculate_frequency (freq_start region_params)
                                    frequency_slot bw of
                               Inl err \<Rightarrow> Inl err
                             | Inr freq \<Rightarrow>
                                 Inr (Printed
                                   \<lparr>res_channel_name = channel_name a,
                                    res_region = region a,
                                    res_num_freq_slots = num_freq_slots,
                                    res_frequency_slot = frequency_slot,
                                    res_freq = freq,
                                    res_bw = bw,
                                    res_region_params = region_params\<rparr>)))))"

section \<open>The contracts of the specification\<close>

text \<open>The djb2 fold as the specification words it: multiply by 33, add the code point,
  keep the low 32 bits.\<close>

definition djb2 :: "pystr \<Rightarrow> int" where
  "djb2 s =
     foldl (\<lambda>accumulator code_point. (accumulator * 33 + int code_point) mod 2 ^ 32) 5381 s"

text \<open>The exact value \<open>x\<close> rounds to a finite double: the operation does not overflow.\<close>

definition finite_double :: "rat \<Rightarrow> bool" where
  "finite_double x \<longleftrightarrow> \<bar>round_double x\<bar> < float_max_bound"

text \<open>
  The slot count of the specification, \<open>floor((end - start) / (spacing + bandwidth/1000))\<close>
  in floating point: every operation of the formula is followed by its rounding.
\<close>

definition slot_count_spec :: "rat \<Rightarrow> rat \<Rightarrow> int \<Rightarrow> int \<Rightarrow> int" where
  "slot_count_spec band_start band_end sp bandwidth_khz =
     \<lfloor>round_double
        (round_double (band_end - band_start)
         / round_double (round_double (of_int sp) + round_double (of_int bandwidth_khz / 1000)))\<rfloor>"

text \<open>
  The frequency of the specification,
  \<open>band_start + bandwidth/2000 + slot_index * (bandwidth/1000)\<close>, in floating point. The
  outermost rounding is that of the last addition; nothing is applied to its result.
\<close>

definition frequency_spec :: "rat \<Rightarrow> int \<Rightarrow> int \<Rightarrow> rat" where
  "frequency_spec band_start slot_index bandwidth_khz =
     round_double
       (round_double (band_start + round_double (of_int bandwidth_khz / 2000))
        + round_double (round_double (of_int slot_index)
                        * round_double (of_int bandwidth_khz / 1000)))"

text \<open>The slot count of a region at a bandwidth is computed and is at least 1.\<close>

definition slots_positive :: "region_params \<Rightarrow> int \<Rightarrow> bool" where
  "slots_positive p bw =
     (case calculate_num_freq_slots (freq_start p) (freq_end p) (spacing p) bw of
        Inl err \<Rightarrow> False
      | Inr n \<Rightarrow> 1 \<le> n)"

text \<open>A row of the table has a finite band whose end is not below its start, and no spacing.\<close>

definition band_in_order :: "region_params \<Rightarrow> bool" where
  "band_in_order p =
     (case (freq_start p, freq_end p) of
        (Finite s, Finite e) \<Rightarrow> s \<le> e \<and> spacing p = 0
      | _ \<Rightarrow> False)"

section \<open>Evaluation\<close>

text \<open>The overflow bound as a numeral, so that concrete runs evaluate quickly.\<close>

lemma float_max_bound_numeral [code]:
  "float_max_bound =
     179769313486231590772930519078902473361797697894230657273430081157732675805500963132708477322407536021120113879871393357658789768814416622492847430639474124377767893424865485276302219601246094119453082952085005768838150682342462881473913110540827237163350510684586298239947245938479716304835356329624224137216"
  by (simp add: float_max_bound_def)

section \<open>The rounding is the IEEE rounding\<close>

text \<open>
  Three facts tie \<open>round_double\<close> to binary64: the result lies on the grid of the
  binade of its argument, with a significand of at most 53 bits; it is within half a unit in
  the last place of the argument; and a number that is a double (a significand below
  \<open>2^53\<close> in magnitude and an exponent of at least \<open>-1074\<close>) is left as it is.
\<close>

lemma pow2_powi: "pow2 e = 2 powi e"
  by (simp add: pow2_def power_int_def inverse_eq_divide power_one_over)

lemma pow2_pos: "0 < pow2 e"
  by (simp add: pow2_powi)

lemma pow2_add: "pow2 (a + b) = pow2 a * pow2 b"
  by (simp add: pow2_powi power_int_add)

lemma pow2_diff: "pow2 (a - b) = pow2 a / pow2 b"
  by (simp add: pow2_powi power_int_diff)

lemma pow2_mono: "a \<le> b \<Longrightarrow> pow2 a \<le> pow2 b"
  by (simp add: pow2_powi power_int_increasing)

lemma pow2_strict_mono: "a < b \<Longrightarrow> pow2 a < pow2 b"
  by (simp add: pow2_powi power_int_strict_increasing)

lemma pow2_less_iff: "pow2 a < pow2 b \<longleftrightarrow> a < b"
proof
  assume "pow2 a < pow2 b"
  show "a < b"
  proof (rule ccontr)
    assume "\<not> a < b"
    then have "pow2 b \<le> pow2 a" by (simp add: pow2_mono)
    with \<open>pow2 a < pow2 b\<close> show False by simp
  qed
qed (rule pow2_strict_mono)

lemma pow2_split: "pow2 a = pow2 (a - b) * pow2 b"
  by (simp flip: pow2_add)

lemma pow2_nat: "0 \<le> e \<Longrightarrow> pow2 e = of_int (2 ^ nat e)"
  by (simp add: pow2_def)

lemma bitlen_pow2_bounds:
  assumes "0 < m"
  shows "pow2 (bitlen m - 1) \<le> of_int m" and "of_int m < pow2 (bitlen m)"
proof -
  have b: "1 \<le> bitlen m"
    using assms by (simp add: bitlen_alt_def)
  have "2 ^ nat (bitlen m - 1) \<le> m" and "m < 2 ^ nat (bitlen m)"
    using bitlen_bounds [OF assms] by simp_all
  then have "rat_of_int (2 ^ nat (bitlen m - 1)) \<le> rat_of_int m"
    and "rat_of_int m < rat_of_int (2 ^ nat (bitlen m))"
    by (simp_all only: of_int_le_iff of_int_less_iff)
  then show "pow2 (bitlen m - 1) \<le> of_int m" and "of_int m < pow2 (bitlen m)"
    using b by (simp_all add: pow2_nat)
qed

text \<open>\<open>ilog2\<close> finds the binade of a non-zero number.\<close>

lemma ilog2_bounds:
  assumes "x \<noteq> 0"
  shows "pow2 (ilog2 x) \<le> \<bar>x\<bar> \<and> \<bar>x\<bar> < pow2 (ilog2 x + 1)"
proof -
  obtain p q where pq: "quotient_of \<bar>x\<bar> = (p, q)"
    by (cases "quotient_of \<bar>x\<bar>")
  have q: "0 < q"
    using pq by (rule quotient_of_denom_pos)
  have x: "\<bar>x\<bar> = of_int p / of_int q"
    using pq by (rule quotient_of_div)
  have "0 < \<bar>x\<bar>"
    using assms by simp
  then have p: "0 < p"
    using q unfolding x by (simp add: zero_less_divide_iff)
  have p_lo: "pow2 (bitlen p - 1) \<le> of_int p" and p_hi: "of_int p < pow2 (bitlen p)"
    using bitlen_pow2_bounds [OF p] by simp_all
  have q_lo: "pow2 (bitlen q - 1) \<le> of_int q" and q_hi: "of_int q < pow2 (bitlen q)"
    using bitlen_pow2_bounds [OF q] by simp_all
  have qpos: "(0::rat) < of_int q"
    using q by simp
  have lo: "pow2 (bitlen p - bitlen q - 1) \<le> \<bar>x\<bar>"
  proof -
    have "pow2 (bitlen p - bitlen q - 1) * of_int q \<le> pow2 (bitlen p - bitlen q - 1) * pow2 (bitlen q)"
      using q_hi pow2_pos [of "bitlen p - bitlen q - 1"] by simp
    also have "\<dots> = pow2 (bitlen p - 1)"
      by (simp flip: pow2_add)
    also have "\<dots> \<le> of_int p"
      by (rule p_lo)
    finally show ?thesis
      using qpos unfolding x by (simp add: pos_le_divide_eq)
  qed
  have hi: "\<bar>x\<bar> < pow2 (bitlen p - bitlen q + 1)"
  proof -
    have "of_int p < pow2 (bitlen p)"
      by (rule p_hi)
    also have "\<dots> = pow2 (bitlen p - bitlen q + 1) * pow2 (bitlen q - 1)"
      by (simp flip: pow2_add)
    also have "\<dots> \<le> pow2 (bitlen p - bitlen q + 1) * of_int q"
      using q_lo pow2_pos [of "bitlen p - bitlen q + 1"] by simp
    finally show ?thesis
      using qpos unfolding x by (simp add: pos_divide_less_eq)
  qed
  show ?thesis
  proof (cases "\<bar>x\<bar> < pow2 (bitlen p - bitlen q)")
    case True
    then have "ilog2 x = bitlen p - bitlen q - 1"
      by (simp add: ilog2_def pq Let_def)
    with True lo show ?thesis by simp
  next
    case False
    then have "ilog2 x = bitlen p - bitlen q"
      by (simp add: ilog2_def pq Let_def)
    with False hi show ?thesis by simp
  qed
qed

lemma ilog2_less: "x \<noteq> 0 \<Longrightarrow> \<bar>x\<bar> < pow2 k \<Longrightarrow> ilog2 x < k"
  using ilog2_bounds [of x] pow2_less_iff [of "ilog2 x" k] by simp

text \<open>\<open>round_half_even\<close> is a nearest integer and leaves integers alone.\<close>

lemma round_half_even_error: "\<bar>of_int (round_half_even y) - y\<bar> \<le> 1 / 2"
proof -
  have "of_int \<lfloor>y\<rfloor> \<le> y" "y < of_int \<lfloor>y\<rfloor> + 1"
    by linarith+
  then show ?thesis
    by (auto simp add: round_half_even_def Let_def)
qed

lemma round_half_even_of_int: "round_half_even (of_int m) = m"
  by (simp add: round_half_even_def)

lemma round_half_even_bound:
  assumes "\<bar>y\<bar> \<le> of_int N"
  shows "\<bar>round_half_even y\<bar> \<le> N"
proof -
  have f: "of_int \<lfloor>y\<rfloor> \<le> y" "y < of_int \<lfloor>y\<rfloor> + 1"
    by linarith+
  have lo: "- N \<le> \<lfloor>y\<rfloor>"
    using assms by (simp add: le_floor_iff abs_le_iff)
  have "\<lfloor>y\<rfloor> + 1 \<le> N" if "y \<noteq> of_int \<lfloor>y\<rfloor>"
  proof -
    have "of_int \<lfloor>y\<rfloor> < (of_int N :: rat)"
      using f that assms by linarith
    then show ?thesis by simp
  qed
  moreover have "\<lfloor>y\<rfloor> \<le> N"
    using assms by (simp add: floor_le_iff abs_le_iff)
  ultimately show ?thesis
    using lo by (auto simp add: round_half_even_def Let_def)
qed


lemma round_double_grid:
  assumes "x \<noteq> 0"
  shows "\<exists>n. round_double x = of_int n * pow2 (max (ilog2 x) (- 1022) - 52) \<and> \<bar>n\<bar> \<le> 2 ^ 53"
proof -
  let ?E = "max (ilog2 x) (- 1022)"
  let ?q = "pow2 (?E - 52)"
  let ?n = "round_half_even (x / ?q)"
  have q: "0 < ?q"
    by (rule pow2_pos)
  have "\<bar>x\<bar> < pow2 (ilog2 x + 1)"
    using ilog2_bounds [OF assms] by simp
  also have "\<dots> \<le> pow2 (?E + 1)"
    by (rule pow2_mono) simp
  also have "\<dots> = pow2 53 * ?q"
    using pow2_split [of "?E + 1" "?E - 52"] by simp
  finally have "\<bar>x\<bar> / ?q < pow2 53"
    using q by (simp add: pos_divide_less_eq)
  then have "\<bar>x / ?q\<bar> \<le> of_int (2 ^ 53)"
    using q by (simp add: pow2_def abs_divide)
  then have "\<bar>?n\<bar> \<le> 2 ^ 53"
    by (rule round_half_even_bound)
  moreover have "round_double x = of_int ?n * ?q"
    using assms by (simp add: round_double_def Let_def)
  ultimately show ?thesis by blast
qed

lemma round_double_error:
  assumes "x \<noteq> 0"
  shows "\<bar>round_double x - x\<bar> \<le> pow2 (max (ilog2 x) (- 1022) - 53)"
proof -
  let ?E = "max (ilog2 x) (- 1022)"
  let ?q = "pow2 (?E - 52)"
  let ?n = "round_half_even (x / ?q)"
  have q: "0 < ?q"
    by (rule pow2_pos)
  have r: "round_double x = of_int ?n * ?q"
    using assms by (simp add: round_double_def Let_def)
  have "of_int ?n * ?q - x = (of_int ?n - x / ?q) * ?q"
    using q by (simp add: left_diff_distrib)
  then have "\<bar>of_int ?n * ?q - x\<bar> = \<bar>of_int ?n - x / ?q\<bar> * ?q"
    using q by (simp only: abs_mult abs_of_pos)
  also have "\<dots> \<le> (1 / 2) * ?q"
    using round_half_even_error [of "x / ?q"] q by (simp add: mult_right_mono)
  also have "\<dots> = pow2 (?E - 53)"
  proof -
    have "pow2 (?E - 52) = pow2 (?E - 53) * pow2 1"
      using pow2_split [of "?E - 52" 1] by simp
    then show ?thesis
      by (simp add: pow2_def)
  qed
  finally show ?thesis
    by (simp add: r)
qed

lemma round_double_exact:
  assumes "\<bar>m\<bar> < 2 ^ 53" and "- 1074 \<le> e"
  shows "round_double (of_int m * pow2 e) = of_int m * pow2 e"
proof (cases "m = 0")
  case True
  then show ?thesis
    by (simp add: round_double_def)
next
  case False
  let ?x = "rat_of_int m * pow2 e"
  let ?E = "max (ilog2 ?x) (- 1022)"
  let ?q = "pow2 (?E - 52)"
  have x0: "?x \<noteq> 0"
    using False pow2_pos [of e] by simp
  have "\<bar>rat_of_int m\<bar> < of_int (2 ^ 53)"
    using assms(1) by (simp only: of_int_abs [symmetric] of_int_less_iff)
  then have "\<bar>?x\<bar> < pow2 53 * pow2 e"
    using pow2_pos [of e] by (simp add: abs_mult pow2_def)
  then have "\<bar>?x\<bar> < pow2 (e + 53)"
    by (simp add: pow2_add mult.commute)
  then have "ilog2 ?x < e + 53"
    using x0 by (rule ilog2_less [rotated])
  then have d: "0 \<le> e - ?E + 52"
    using assms(2) by simp
  have "pow2 e = pow2 (e - ?E + 52) * ?q"
    using pow2_split [of e "?E - 52"] by (simp add: algebra_simps)
  then have split: "?x = of_int (m * 2 ^ nat (e - ?E + 52)) * ?q"
    using d by (simp add: pow2_nat)
  have "?x / ?q = of_int (m * 2 ^ nat (e - ?E + 52))"
    using pow2_pos [of "?E - 52"] by (subst split) simp
  then have "round_half_even (?x / ?q) = m * 2 ^ nat (e - ?E + 52)"
    by (simp only: round_half_even_of_int)
  then have "round_double ?x = of_int (m * 2 ^ nat (e - ?E + 52)) * ?q"
    using x0 by (simp add: round_double_def Let_def)
  from this split [symmetric] show ?thesis
    by (rule trans)
qed

lemma round_double_of_int: "\<bar>m\<bar> < 2 ^ 53 \<Longrightarrow> round_double (of_int m) = of_int m"
  using round_double_exact [of m 0] by (simp add: pow2_def)

text \<open>Rounding keeps the sign of a number that is not negative.\<close>

lemma round_half_even_nonneg: "0 \<le> y \<Longrightarrow> 0 \<le> round_half_even y"
  by (auto simp add: round_half_even_def Let_def)

lemma round_double_nonneg:
  assumes "0 \<le> x"
  shows "0 \<le> round_double x"
proof (cases "x = 0")
  case True
  then show ?thesis by (simp add: round_double_def)
next
  case False
  let ?q = "pow2 (max (ilog2 x) (- 1022) - 52)"
  have q: "0 < ?q" by (rule pow2_pos)
  then have "0 \<le> x / ?q" using assms by simp
  then have "0 \<le> round_half_even (x / ?q)" by (rule round_half_even_nonneg)
  then have "0 \<le> rat_of_int (round_half_even (x / ?q)) * ?q"
    using q by simp
  then show ?thesis
    using False by (simp add: round_double_def Let_def)
qed

lemma float_round_nonneg:
  assumes "0 \<le> x"
  shows "float_round x = PosInf \<or> (\<exists>r. float_round x = Finite r \<and> 0 \<le> r)"
proof -
  have r: "0 \<le> round_double x" using assms by (rule round_double_nonneg)
  have "0 < float_max_bound" by (simp add: float_max_bound_def)
  with r have "\<not> round_double x \<le> - float_max_bound" by linarith
  then show ?thesis
    using r by (simp add: float_round_def Let_def)
qed

lemma float_round_finite: "finite_double x \<Longrightarrow> float_round x = Finite (round_double x)"
  by (auto simp add: finite_double_def float_round_def Let_def)

lemma int_truediv_finite:
  "b \<noteq> 0 \<Longrightarrow> finite_double (of_int a / of_int b) \<Longrightarrow>
   int_truediv a b = Inr (Finite (round_double (of_int a / of_int b)))"
  by (auto simp add: finite_double_def int_truediv_def Let_def)

lemma float_of_int_finite:
  "finite_double (of_int i) \<Longrightarrow> float_of_int i = Inr (Finite (round_double (of_int i)))"
  by (auto simp add: finite_double_def float_of_int_def Let_def)

text \<open>Three rows of the table, looked up.\<close>

lemma eu_433_params:
  "get_region_parameters (py_str ''EU_433'') =
     Some \<lparr>freq_start = Finite 433, freq_end = float_literal (43479 / 100), spacing = 0,
           description = py_str ''Europe - 433 MHz ISM Band''\<rparr>"
  by code_simp

lemma my_433_params:
  "get_region_parameters (py_str ''MY_433'') =
     Some \<lparr>freq_start = Finite 433, freq_end = Finite 435, spacing = 0,
           description = py_str ''Malaysia - 433 MHz Band''\<rparr>"
  by code_simp

lemma ru_params:
  "get_region_parameters (py_str ''RU'') =
     Some \<lparr>freq_start = float_literal (8687 / 10), freq_end = float_literal (8692 / 10),
           spacing = 0, description = py_str ''Russia - 868 MHz Band''\<rparr>"
  by code_simp

lemma ru_1000_slots:
  "calculate_num_freq_slots (float_literal (8687 / 10)) (float_literal (8692 / 10)) 0 1000 = Inr 0"
  by code_simp

section \<open>The string hash\<close>

lemma mask32_mod: "(x::int) AND 0xFFFFFFFF = x mod 2 ^ 32"
proof -
  have "(0xFFFFFFFF::int) = mask 32"
    by (simp add: mask_eq_exp_minus_1)
  then show ?thesis
    by (simp only: flip: take_bit_eq_mask take_bit_eq_mod)
qed

lemma hash_step:
  "((push_bit 5 h + h) + c) AND 0xFFFFFFFF = (h * 33 + c) mod 2 ^ 32" for h c :: int
  by (simp add: mask32_mod push_bit_eq_mult algebra_simps)

lemma hash_loop_foldl:
  "hash_loop h s =
     foldl (\<lambda>accumulator code_point. (accumulator * 33 + int code_point) mod 2 ^ 32) h s"
  by (induction s arbitrary: h) (simp_all only: hash_loop.simps foldl.simps hash_step)

lemma hash_loop_range:
  "0 \<le> h \<Longrightarrow> h < 2 ^ 32 \<Longrightarrow> 0 \<le> hash_loop h s \<and> hash_loop h s < 2 ^ 32"
proof (induction s arbitrary: h)
  case Nil
  then show ?case by simp
next
  case (Cons c s)
  show ?case
    unfolding hash_loop.simps hash_step
    by (rule Cons.IH) simp_all
qed

lemma hash_string_nonneg: "0 \<le> hash_string s"
proof -
  have "0 \<le> hash_loop 5381 s \<and> hash_loop 5381 s < 2 ^ 32"
    by (rule hash_loop_range) simp_all
  then show ?thesis
    by (simp add: hash_string_def)
qed

text \<open>
  C2: for every string, \<open>hash_string\<close> is the djb2 fold from 5381 with
  \<open>accumulator * 33 + code_point\<close> reduced modulo \<open>2^32\<close> at every character; the empty
  string hashes to 5381 and every hash lies in \<open>[0, 2^32 - 1]\<close>.
\<close>

theorem hash_string_is_djb2:
  "hash_string s = djb2 s \<and> hash_string [] = 5381
   \<and> 0 \<le> hash_string s \<and> hash_string s \<le> 2 ^ 32 - 1"
proof -
  have "0 \<le> hash_loop 5381 s \<and> hash_loop 5381 s < 2 ^ 32"
    by (rule hash_loop_range) simp_all
  then show ?thesis
    by (simp add: hash_string_def djb2_def hash_loop_foldl)
qed

section \<open>Bandwidth by channel name\<close>

text \<open>
  C3: the bandwidth is 500 exactly for the name \<open>ShortTurbo\<close>, 125 exactly for
  \<open>LongMod\<close> and \<open>LongSlow\<close>, and 250 for every other string; \<open>LongFast\<close>, a name in
  another case, a name with a known name as prefix and a prefix of a known name all get 250.
\<close>

theorem get_bandwidth_khz_exact:
  "(get_bandwidth_khz s = 500 \<longleftrightarrow> s = py_str ''ShortTurbo'')
   \<and> (get_bandwidth_khz s = 125 \<longleftrightarrow> s = py_str ''LongMod'' \<or> s = py_str ''LongSlow'')
   \<and> (get_bandwidth_khz s = 250 \<longleftrightarrow>
        s \<noteq> py_str ''ShortTurbo'' \<and> s \<noteq> py_str ''LongMod'' \<and> s \<noteq> py_str ''LongSlow'')
   \<and> get_bandwidth_khz (py_str ''LongFast'') = 250
   \<and> get_bandwidth_khz (py_str ''shortturbo'') = 250
   \<and> get_bandwidth_khz (py_str ''ShortTurboX'') = 250
   \<and> get_bandwidth_khz (py_str ''Long'') = 250"
  by (auto simp add: get_bandwidth_khz_def py_str_def)

theorem get_bandwidth_khz_exact_witness:
  "get_bandwidth_khz (py_str ''LONGSLOW'') = 250
   \<and> py_str ''LONGSLOW'' \<noteq> py_str ''LongSlow''"
  using get_bandwidth_khz_exact [of "py_str ''LONGSLOW''"]
  by (simp add: py_str_def)

lemma get_bandwidth_khz_cases: "get_bandwidth_khz name \<in> {125, 250, 500}"
  by (simp add: get_bandwidth_khz_def)

section \<open>The slot count\<close>

text \<open>
  C5: whenever no operation overflows and the divisor is not zero, the slot count is
  \<open>floor((end - start) / (spacing + bandwidth/1000))\<close> with each operation rounded to a
  double; region \<open>EU_433\<close> is 433.0 to 434.79 MHz, \<open>LongSlow\<close> has 125 kHz, and their slot
  count is 14.
\<close>

theorem calculate_num_freq_slots_floor:
  assumes "finite_double (e - s)"
    and "finite_double (of_int bw / 1000)"
    and "finite_double (of_int sp)"
    and "finite_double (round_double (of_int sp) + round_double (of_int bw / 1000))"
    and "round_double (round_double (of_int sp) + round_double (of_int bw / 1000)) \<noteq> 0"
    and "finite_double (round_double (e - s)
           / round_double (round_double (of_int sp) + round_double (of_int bw / 1000)))"
  shows "calculate_num_freq_slots (Finite s) (Finite e) sp bw = Inr (slot_count_spec s e sp bw)
         \<and> get_region_parameters (py_str ''EU_433'') =
             Some \<lparr>freq_start = Finite 433, freq_end = float_literal (43479 / 100), spacing = 0,
                   description = py_str ''Europe - 433 MHz ISM Band''\<rparr>
         \<and> get_bandwidth_khz (py_str ''LongSlow'') = 125
         \<and> calculate_num_freq_slots (Finite 433) (float_literal (43479 / 100)) 0 125 = Inr 14"
proof -
  have w: "float_sub (Finite e) (Finite s) = Finite (round_double (e - s))"
    using assms(1) by (simp add: float_sub_def float_round_finite)
  have st: "int_truediv bw 1000 = Inr (Finite (round_double (of_int bw / 1000)))"
    using assms(2) int_truediv_finite [of 1000 bw] by simp
  have spf: "float_of_int sp = Inr (Finite (round_double (of_int sp)))"
    using assms(3) by (rule float_of_int_finite)
  have general: "calculate_num_freq_slots (Finite s) (Finite e) sp bw
      = Inr (slot_count_spec s e sp bw)"
    using assms(4,5,6)
    by (simp add: calculate_num_freq_slots_def w st spf float_round_finite slot_count_spec_def)
  have bw: "get_bandwidth_khz (py_str ''LongSlow'') = 125"
    by code_simp
  have eu: "calculate_num_freq_slots (Finite 433) (float_literal (43479 / 100)) 0 125 = Inr 14"
    by code_simp
  show ?thesis
    using general eu_433_params bw eu by simp
qed

text \<open>
  Region \<open>EU_868\<close> (863 to 870 MHz) at 70 kHz: in doubles \<open>7 / 0.07\<close> is just below
  100 and the slot count is 99, where the quotient of the decimal numbers is 100.
\<close>

theorem calculate_num_freq_slots_floor_witness:
  "calculate_num_freq_slots (Finite 863) (Finite 870) 0 70 = Inr 99
   \<and> slot_count_spec 863 870 0 70 = 99
   \<and> \<lfloor>(870 - 863) / (0 + 70 / 1000 :: rat)\<rfloor> = 100"
proof -
  have f: "finite_double (870 - 863)"
    "finite_double (of_int 70 / 1000)"
    "finite_double (of_int 0)"
    "finite_double (round_double (of_int 0) + round_double (of_int 70 / 1000))"
    "round_double (round_double (of_int 0) + round_double (of_int 70 / 1000)) \<noteq> 0"
    "finite_double (round_double (870 - 863)
           / round_double (round_double (of_int 0) + round_double (of_int 70 / 1000)))"
    by code_simp+
  have v: "slot_count_spec 863 870 0 70 = 99"
    by code_simp
  have x: "\<lfloor>(870 - 863) / (0 + 70 / 1000 :: rat)\<rfloor> = 100"
    by simp
  show ?thesis
    using calculate_num_freq_slots_floor [OF f] v x by simp
qed

lemma all_slots_positive:
  "list_all (\<lambda>(r, p). list_all (slots_positive p) [125, 250, 500]) REGION_FREQUENCIES"
  by code_simp

text \<open>
  C9: for every region of the table and each of the bandwidths 125, 250 and 500 kHz, which
  are all that the classification by name produces, the slot count is computed and is at
  least 1.
\<close>

theorem shipped_regions_not_degenerate:
  assumes "get_region_parameters region_id = Some p"
    and "bw \<in> {125, 250, 500}"
  shows "(\<exists>n. calculate_num_freq_slots (freq_start p) (freq_end p) (spacing p) bw = Inr n
              \<and> 1 \<le> n)
         \<and> get_bandwidth_khz name \<in> {125, 250, 500}"
proof -
  have "(region_id, p) \<in> set REGION_FREQUENCIES"
    using assms(1) unfolding get_region_parameters_def by (rule map_of_SomeD)
  then have "list_all (slots_positive p) [125, 250, 500]"
    using all_slots_positive by (auto simp add: list_all_iff)
  then have "slots_positive p bw"
    using assms(2) by auto
  then have "\<exists>n. calculate_num_freq_slots (freq_start p) (freq_end p) (spacing p) bw = Inr n
      \<and> 1 \<le> n"
    by (auto simp add: slots_positive_def split: sum.splits)
  then show ?thesis
    using get_bandwidth_khz_cases by simp
qed

theorem shipped_regions_not_degenerate_witness:
  "get_region_parameters (py_str ''RU'') =
     Some \<lparr>freq_start = float_literal (8687 / 10), freq_end = float_literal (8692 / 10),
           spacing = 0, description = py_str ''Russia - 868 MHz Band''\<rparr>
   \<and> calculate_num_freq_slots (float_literal (8687 / 10)) (float_literal (8692 / 10)) 0 500
       = Inr 1"
proof -
  have c: "calculate_num_freq_slots (float_literal (8687 / 10)) (float_literal (8692 / 10)) 0 500
      = Inr 1"
    by code_simp
  have "\<exists>n. calculate_num_freq_slots (float_literal (8687 / 10)) (float_literal (8692 / 10)) 0 500
        = Inr n \<and> 1 \<le> n"
    using shipped_regions_not_degenerate [OF ru_params, of 500] by simp
  then show ?thesis
    using ru_params c by simp
qed

section \<open>The slot index\<close>

text \<open>
  C6: for a slot count of at least 1 the slot index is the hash modulo the slot count, which
  is the modulus of the two unsigned numbers, and it lies in \<open>[0, slot_count - 1]\<close>.
\<close>

theorem determine_frequency_slot_range:
  assumes "1 \<le> n"
  shows "determine_frequency_slot name n = Inr (hash_string name mod n)
         \<and> hash_string name mod n = int (nat (hash_string name) mod nat n)
         \<and> 0 \<le> hash_string name mod n \<and> hash_string name mod n \<le> n - 1"
proof -
  have h: "0 \<le> hash_string name"
    by (rule hash_string_nonneg)
  from assms have n: "0 < n" by simp
  have "hash_string name mod n = int (nat (hash_string name) mod nat n)"
    using h n by (simp add: zmod_int)
  moreover have "0 \<le> hash_string name mod n" using n by simp
  moreover have "hash_string name mod n < n" using n by simp
  ultimately show ?thesis using n by (simp add: determine_frequency_slot_def)
qed

theorem determine_frequency_slot_range_witness:
  "(1::int) \<le> 104
   \<and> determine_frequency_slot (py_str ''LongFast'') 104 = Inr 19
   \<and> hash_string (py_str ''LongFast'') mod 104 = 19"
proof -
  have h: "hash_string (py_str ''LongFast'') mod 104 = 19"
    by code_simp
  show ?thesis
    using determine_frequency_slot_range [of 104 "py_str ''LongFast''"] h by simp
qed

section \<open>The frequency\<close>

text \<open>
  C7: whenever no operation overflows, the frequency is
  \<open>band_start + bandwidth/2000 + slot_index * (bandwidth/1000)\<close> with each operation rounded
  to a double, and the function returns the last sum as it is.
\<close>

theorem calculate_frequency_formula:
  assumes "finite_double (of_int bw / 2000)"
    and "finite_double (fs + round_double (of_int bw / 2000))"
    and "finite_double (of_int bw / 1000)"
    and "finite_double (of_int slot)"
    and "finite_double (round_double (of_int slot) * round_double (of_int bw / 1000))"
    and "finite_double
           (round_double (fs + round_double (of_int bw / 2000))
            + round_double (round_double (of_int slot) * round_double (of_int bw / 1000)))"
  shows "calculate_frequency (Finite fs) slot bw = Inr (Finite (frequency_spec fs slot bw))"
proof -
  have half: "int_truediv bw 2000 = Inr (Finite (round_double (of_int bw / 2000)))"
    using assms(1) int_truediv_finite [of 2000 bw] by simp
  have step: "int_truediv bw 1000 = Inr (Finite (round_double (of_int bw / 1000)))"
    using assms(3) int_truediv_finite [of 1000 bw] by simp
  have slotf: "float_of_int slot = Inr (Finite (round_double (of_int slot)))"
    using assms(4) by (rule float_of_int_finite)
  show ?thesis
    using assms(2,5,6)
    by (simp add: calculate_frequency_def half step slotf float_round_finite frequency_spec_def)
qed

text \<open>
  At 920 MHz, slot 26 and 62 kHz the result is the sum of the rounded terms as it comes out
  (it prints as 921.6429999999999): neither the decimal 921.643 nor the double nearest to
  it. At 902 MHz, slot 19 and 250 kHz every step is exact.
\<close>

theorem calculate_frequency_formula_witness:
  "calculate_frequency (Finite 920) 26 62 = Inr (Finite (8106857561266847 / 8796093022208))
   \<and> frequency_spec 920 26 62 = 8106857561266847 / 8796093022208
   \<and> frequency_spec 920 26 62 \<noteq> 920 + 62 / 2000 + 26 * (62 / 1000)
   \<and> frequency_spec 920 26 62 \<noteq> round_double (920 + 62 / 2000 + 26 * (62 / 1000))
   \<and> calculate_frequency (Finite 902) 19 250
       = Inr (Finite (902 + 250 / 2000 + 19 * (250 / 1000)))"
proof -
  have f: "finite_double (of_int 62 / 2000)"
    "finite_double (920 + round_double (of_int 62 / 2000))"
    "finite_double (of_int 62 / 1000)"
    "finite_double (of_int 26)"
    "finite_double (round_double (of_int 26) * round_double (of_int 62 / 1000))"
    "finite_double
           (round_double (920 + round_double (of_int 62 / 2000))
            + round_double (round_double (of_int 26) * round_double (of_int 62 / 1000)))"
    by code_simp+
  have v: "frequency_spec 920 26 62 = 8106857561266847 / 8796093022208"
    by code_simp
  have n: "round_double (920 + 62 / 2000 + 26 * (62 / 1000)) = 253339298789589 / 274877906944"
    by code_simp
  have u: "calculate_frequency (Finite 902) 19 250
      = Inr (Finite (902 + 250 / 2000 + 19 * (250 / 1000)))"
    by code_simp
  show ?thesis
    using calculate_frequency_formula [OF f] v n u by simp
qed

section \<open>The whole resolution\<close>

lemma help_not_region: "get_region_parameters (py_str ''help'') = None"
  by code_simp

lemma main_known_region:
  assumes "get_region_parameters (region a) = Some p"
  shows "main a =
     (case calculate_num_freq_slots (freq_start p) (freq_end p) (spacing p)
             (select_bandwidth a) of
        Inl err \<Rightarrow> Inl err
      | Inr num_freq_slots \<Rightarrow>
          (case determine_frequency_slot (channel_name a) num_freq_slots of
             Inl err \<Rightarrow> Inl err
           | Inr frequency_slot \<Rightarrow>
               (case calculate_frequency (freq_start p) frequency_slot (select_bandwidth a) of
                  Inl err \<Rightarrow> Inl err
                | Inr freq \<Rightarrow>
                    Inr (Printed
                      \<lparr>res_channel_name = channel_name a,
                       res_region = region a,
                       res_num_freq_slots = num_freq_slots,
                       res_frequency_slot = frequency_slot,
                       res_freq = freq,
                       res_bw = select_bandwidth a,
                       res_region_params = p\<rparr>))))"
proof -
  have "region a \<noteq> py_str ''help''"
    using assms help_not_region by auto
  then show ?thesis
    using assms by (simp add: main_def Let_def)
qed

lemma main_zero_slots:
  assumes "get_region_parameters (region a) = Some p"
    and "calculate_num_freq_slots (freq_start p) (freq_end p) (spacing p) (select_bandwidth a)
         = Inr 0"
  shows "main a = Inl ZeroDivisionError"
  by (simp add: main_known_region [OF assms(1)] assms(2) determine_frequency_slot_def)



text \<open>
  C8: region \<open>US\<close> (902 to 928 MHz), channel \<open>LongFast\<close>, no override: the bandwidth is
  250 kHz, the slot count is \<open>floor(26 / 0.25) = 104\<close>, the slot index is the hash of the
  name modulo 104 (which is 19) and the frequency is \<open>902 + 0.125 + slot_index * 0.25\<close> MHz.
\<close>

theorem us_longfast_end_to_end:
  "main \<lparr>channel_name = py_str ''LongFast'', bandwidth = None, region = py_str ''US''\<rparr> =
     Inr (Printed
       \<lparr>res_channel_name = py_str ''LongFast'',
        res_region = py_str ''US'',
        res_num_freq_slots = 104,
        res_frequency_slot = hash_string (py_str ''LongFast'') mod 104,
        res_freq =
          Finite (902 + 1 / 8 + of_int (hash_string (py_str ''LongFast'') mod 104) * (1 / 4)),
        res_bw = 250,
        res_region_params =
          \<lparr>freq_start = Finite 902, freq_end = Finite 928, spacing = 0,
           description = py_str ''North America - 915 MHz ISM Band''\<rparr>\<rparr>)
   \<and> get_bandwidth_khz (py_str ''LongFast'') = 250
   \<and> (104::int) = \<lfloor>(928 - 902) / (250 / 1000 :: rat)\<rfloor>
   \<and> hash_string (py_str ''LongFast'') mod 104 = 19"
  by code_simp

section \<open>A slot count that is not positive\<close>

text \<open>
  C10: with a slot count of 0 the slot index computation divides by zero, and nothing
  between the two computations catches it: a run whose slot count is 0 ends in
  \<open>ZeroDivisionError\<close>.
\<close>

theorem zero_slot_count_raises:
  "determine_frequency_slot name 0 = Inl ZeroDivisionError
   \<and> (get_region_parameters (region a) = Some p
        \<and> calculate_num_freq_slots (freq_start p) (freq_end p) (spacing p) (select_bandwidth a)
            = Inr 0
      \<longrightarrow> main a = Inl ZeroDivisionError)"
  using main_zero_slots [of a p] by (simp add: determine_frequency_slot_def)

text \<open>Region \<open>RU\<close> is 0.5 MHz wide; a bandwidth of 1000 kHz does not fit.\<close>

theorem zero_slot_count_raises_witness:
  "calculate_num_freq_slots (float_literal (8687 / 10)) (float_literal (8692 / 10)) 0 1000 = Inr 0
   \<and> main \<lparr>channel_name = py_str ''LongFast'', bandwidth = Some 1000, region = py_str ''RU''\<rparr>
       = Inl ZeroDivisionError"
  using zero_slot_count_raises [of "py_str ''LongFast''"
      "\<lparr>channel_name = py_str ''LongFast'', bandwidth = Some 1000, region = py_str ''RU''\<rparr>"
      "\<lparr>freq_start = float_literal (8687 / 10), freq_end = float_literal (8692 / 10),
        spacing = 0, description = py_str ''Russia - 868 MHz Band''\<rparr>"]
    ru_params ru_1000_slots
  by (simp add: select_bandwidth_def)

text \<open>
  With a band of the table, whose end is not below its start, and a positive bandwidth the
  slot count is never negative.
\<close>

lemma all_bands_in_order: "list_all (\<lambda>(r, p). band_in_order p) REGION_FREQUENCIES"
  by code_simp

lemma slots_nonneg:
  assumes "s \<le> e" and "0 < bw"
    and "calculate_num_freq_slots (Finite s) (Finite e) 0 bw = Inr n"
  shows "0 \<le> n"
proof -
  have w: "float_sub (Finite e) (Finite s) = float_round (e - s)"
    by (simp add: float_sub_def)
  have wc: "float_round (e - s) = PosInf \<or> (\<exists>r. float_round (e - s) = Finite r \<and> 0 \<le> r)"
    using assms(1) by (intro float_round_nonneg) simp
  obtain st where st: "int_truediv bw 1000 = Inr (Finite st)" and st0: "0 \<le> st"
  proof -
    have "0 \<le> round_double (of_int bw / 1000)"
      using assms(2) by (intro round_double_nonneg) simp
    moreover have "\<exists>x. int_truediv bw 1000 = Inr x"
      using assms(3) by (auto simp add: calculate_num_freq_slots_def Let_def split: sum.splits)
    ultimately show ?thesis
      using that by (auto simp add: int_truediv_def Let_def split: if_splits)
  qed
  have z: "float_of_int 0 = Inr (Finite 0)"
    by (simp add: float_of_int_def round_double_def float_max_bound_def)
  have dc: "float_round st = PosInf \<or> (\<exists>d. float_round st = Finite d \<and> 0 \<le> d)"
    using st0 by (rule float_round_nonneg)
  have eq: "(case float_truediv (float_round (e - s)) (float_round st) of
              Inl err \<Rightarrow> Inl err | Inr q \<Rightarrow> math_floor q) = Inr n"
    using assms(3) by (simp add: calculate_num_freq_slots_def Let_def w st z)
  from wc dc show ?thesis
  proof (elim disjE exE conjE)
    assume "float_round (e - s) = PosInf" "float_round st = PosInf"
    with eq show ?thesis by simp
  next
    fix d assume "float_round (e - s) = PosInf" "float_round st = Finite d" "0 \<le> d"
    with eq show ?thesis by (simp split: if_splits)
  next
    fix r assume "float_round (e - s) = Finite r" "0 \<le> r" "float_round st = PosInf"
    with eq show ?thesis by simp
  next
    fix r d assume a: "float_round (e - s) = Finite r" "0 \<le> r" "float_round st = Finite d" "0 \<le> d"
    show ?thesis
    proof (cases "d = 0")
      case True
      with eq a show ?thesis by simp
    next
      case False
      with a have "0 \<le> r / d" by simp
      then have "float_round (r / d) = PosInf \<or> (\<exists>q. float_round (r / d) = Finite q \<and> 0 \<le> q)"
        by (rule float_round_nonneg)
      then show ?thesis
        using eq a False by auto
    qed
  qed
qed

text \<open>
  C1, as the specification states it, fails: for region \<open>RU\<close> and a bandwidth of 1000 kHz
  the slot count computation returns 0 and raises nothing; the error of the run is the
  \<open>ZeroDivisionError\<close> of the slot index computation.
\<close>

theorem degenerate_band_counterexample:
  "calculate_num_freq_slots (float_literal (8687 / 10)) (float_literal (8692 / 10)) 0 1000 = Inr 0
   \<and> determine_frequency_slot (py_str ''LongFast'') 0 = Inl ZeroDivisionError
   \<and> main \<lparr>channel_name = py_str ''LongFast'', bandwidth = Some 1000, region = py_str ''RU''\<rparr>
       = Inl ZeroDivisionError"
  by code_simp

text \<open>
  C1, amended: for a region of the table and a positive bandwidth, a slot count that is not
  positive is 0; the slot count computation returns it, the slot index computation then
  raises \<open>ZeroDivisionError\<close>, and the run ends in that error: it does not go on with a
  count of 1 and computes no frequency.
\<close>

theorem nonpositive_slot_count_raises:
  assumes "get_region_parameters (region a) = Some p"
    and "0 < select_bandwidth a"
    and "calculate_num_freq_slots (freq_start p) (freq_end p) (spacing p) (select_bandwidth a)
         = Inr n"
    and "n \<le> 0"
  shows "n = 0
         \<and> determine_frequency_slot (channel_name a) n = Inl ZeroDivisionError
         \<and> main a = Inl ZeroDivisionError"
proof -
  have "(region a, p) \<in> set REGION_FREQUENCIES"
    using assms(1) unfolding get_region_parameters_def by (rule map_of_SomeD)
  then have "band_in_order p"
    using all_bands_in_order by (auto simp add: list_all_iff)
  then obtain s e where p: "freq_start p = Finite s" "freq_end p = Finite e" "spacing p = 0"
    and se: "s \<le> e"
    by (auto simp add: band_in_order_def split: pyfloat.splits)
  have "0 \<le> n"
    using se assms(2) assms(3) unfolding p by (rule slots_nonneg)
  with assms(4) have n: "n = 0" by simp
  have "main a = Inl ZeroDivisionError"
    using assms(1) assms(3) unfolding n by (rule main_zero_slots)
  then show ?thesis
    using n by (simp add: determine_frequency_slot_def)
qed

text \<open>Region \<open>MY_433\<close> is 2 MHz wide; a bandwidth of 2500 kHz does not fit.\<close>

theorem nonpositive_slot_count_raises_witness:
  "get_region_parameters (py_str ''MY_433'') =
     Some \<lparr>freq_start = Finite 433, freq_end = Finite 435, spacing = 0,
           description = py_str ''Malaysia - 433 MHz Band''\<rparr>
   \<and> calculate_num_freq_slots (Finite 433) (Finite 435) 0 2500 = Inr 0
   \<and> main \<lparr>channel_name = py_str ''LongFast'', bandwidth = Some 2500,
           region = py_str ''MY_433''\<rparr> = Inl ZeroDivisionError"
proof -
  let ?a = "\<lparr>channel_name = py_str ''LongFast'', bandwidth = Some 2500,
             region = py_str ''MY_433''\<rparr>"
  let ?p = "\<lparr>freq_start = Finite 433, freq_end = Finite 435, spacing = 0,
           description = py_str ''Malaysia - 433 MHz Band''\<rparr>"
  have r: "get_region_parameters (region ?a) = Some ?p"
    using my_433_params by simp
  have b: "0 < select_bandwidth ?a"
    by (simp add: select_bandwidth_def)
  have c: "calculate_num_freq_slots (freq_start ?p) (freq_end ?p) (spacing ?p)
             (select_bandwidth ?a) = Inr 0"
    by code_simp
  show ?thesis
    using nonpositive_slot_count_raises [OF r b c] my_433_params c
    by (simp add: select_bandwidth_def)
qed

end
